theory Spec2Isabelle
  imports Main "HOL-Library.Sublist"
begin

section \<open>Data model\<close>

text \<open>
  The plugin (src/index.js) is JavaScript. Strings are lists of code units, an
  object used as a dictionary is an association list of its own properties (in
  insertion order), \<open>undefined\<close> is \<open>None\<close>, and an exception is the \<open>Inl\<close>
  side of a sum. The two dictionaries of the handler, \<open>hashByChunkId\<close> and
  \<open>visitedByChunkId\<close>, are plain \<open>{}\<close> objects that are read with chunk ids as
  keys, so a read of them also sees the properties every object inherits.
\<close>

datatype js_value =
    JUndefined
  | JNull
  | JBool bool
  | JNum int
  | JStr string
  | JArr "js_value list"
  | JObj

datatype error =
    Error string      \<comment> \<open>\<open>throw new Error(msg)\<close>\<close>
  | TypeError         \<comment> \<open>a property read on \<open>undefined\<close>, or a non-string handed to Node\<close>
  | RangeError        \<comment> \<open>the call stack is exhausted\<close>

text \<open>
  A chunk id is a number (what webpack assigns) or a string (a named chunk).
  \<open>Array.prototype.includes\<close> compares ids as values; a property access
  \<open>obj[id]\<close> and a string concatenation use the id's string form.
\<close>

datatype chunk_id = IdNum nat | IdStr string

type_synonym cref = nat

text \<open>
  Chunks are objects that refer to each other, possibly in cycles, so a chunk
  holds references and the heap maps a reference to the object.
  \<open>hasRuntime\<close> is \<open>None\<close> when the chunk object has no such method (webpack 1).
\<close>

record chunk =
  chunk_id :: chunk_id
  chunks :: "cref list"
  files :: "string list"
  hasRuntime :: "bool option"
  entry :: bool

type_synonym heap = "cref \<Rightarrow> chunk"

text \<open>
  An asset is a source object: \<open>content\<close> is what its \<open>source()\<close> returns,
  \<open>integrity\<close> the property the plugin attaches. The asset map is read by file
  name. There an inherited name behaves like a missing one (\<open>.source\<close> of the
  inherited value is not a function, and its \<open>.integrity\<close> is \<open>undefined\<close>), so
  a read of the asset map is a lookup among its own properties.
\<close>

record asset =
  content :: string
  integrity :: "string option"

type_synonym assets = "(string \<times> asset) list"

text \<open>
  Node's \<open>crypto\<close> module is the environment: \<open>createHash(algo)\<close> throws for an
  algorithm it does not know, and otherwise
  \<open>createHash(algo).update(source, 'utf8').digest('base64')\<close> is a function of
  the algorithm and the content.
\<close>

record crypto =
  supported :: "string \<Rightarrow> bool"
  digest_base64 :: "string \<Rightarrow> string \<Rightarrow> string"

section \<open>Dictionaries and strings of the host language\<close>

definition obj_get :: "(string \<times> 'a) list \<Rightarrow> string \<Rightarrow> 'a option" where
  "obj_get obj k = map_of obj k"

text \<open>\<open>obj[k] = v\<close>: an existing property keeps its place, a new one goes last.\<close>

fun obj_set :: "(string \<times> 'a) list \<Rightarrow> string \<Rightarrow> 'a \<Rightarrow> (string \<times> 'a) list" where
  "obj_set [] k v = [(k, v)]"
| "obj_set ((k', v') # rest) k v =
     (if k' = k then (k, v) # rest else (k', v') # obj_set rest k v)"

text \<open>
  The properties that a plain object inherits from \<open>Object.prototype\<close>. Their
  values are functions, and for \<open>__proto__\<close> the prototype object itself: all of
  them are truthy and none is a string.
\<close>

definition object_prototype_names :: "string list" where
  "object_prototype_names =
     [''constructor'', ''hasOwnProperty'', ''isPrototypeOf'', ''propertyIsEnumerable'',
      ''toLocaleString'', ''toString'', ''valueOf'', ''__defineGetter__'', ''__defineSetter__'',
      ''__lookupGetter__'', ''__lookupSetter__'', ''__proto__'']"

text \<open>
  \<open>obj[k]\<close> read from a plain object: the own property when there is one, else
  the inherited one, else \<open>undefined\<close>.
\<close>

datatype 'a property = Absent | Own 'a | Inherited string

definition obj_read :: "(string \<times> 'a) list \<Rightarrow> string \<Rightarrow> 'a property" where
  "obj_read obj k =
     (case map_of obj k of
        Some v \<Rightarrow> Own v
      | None \<Rightarrow> if k \<in> set object_prototype_names then Inherited k else Absent)"

text \<open>
  \<open>obj[k] = v\<close> on a plain object, for a string or boolean \<open>v\<close>: the setter of
  \<open>__proto__\<close> ignores such a value; any other name becomes an own property.
\<close>

definition obj_write :: "(string \<times> 'a) list \<Rightarrow> string \<Rightarrow> 'a \<Rightarrow> (string \<times> 'a) list" where
  "obj_write obj k v = (if k = ''__proto__'' then obj else obj_set obj k v)"

text \<open>
  \<open>visitedByChunkId[key]\<close> in a condition. The dictionary is the list of the keys
  that were set to \<open>true\<close>; an inherited name is truthy without having been set.
\<close>

definition visited_truthy :: "string list \<Rightarrow> string \<Rightarrow> bool" where
  "visited_truthy visited key = (key \<in> set visited \<or> key \<in> set object_prototype_names)"

text \<open>A value is truthy in a condition: a string is, unless it is empty or absent.\<close>

fun truthy :: "string option \<Rightarrow> bool" where
  "truthy None = False"
| "truthy (Some s) = (s \<noteq> [])"

definition digit_char :: "nat \<Rightarrow> char" where
  "digit_char d = ''0123456789'' ! (d mod 10)"

text \<open>The decimal form of a non-negative integer, as \<open>String(n)\<close> gives it.\<close>

fun string_of_nat :: "nat \<Rightarrow> string" where
  "string_of_nat n =
     (if n < 10 then [digit_char n]
      else string_of_nat (n div 10) @ [digit_char (n mod 10)])"

declare string_of_nat.simps [simp del]

fun id_key :: "chunk_id \<Rightarrow> string" where
  "id_key (IdNum n) = string_of_nat n"
| "id_key (IdStr s) = s"

text \<open>
  \<open>String.prototype.indexOf\<close>: the least offset at which the pattern starts,
  \<open>-1\<close> when there is none.
\<close>

fun indexOf :: "string \<Rightarrow> string \<Rightarrow> int" where
  "indexOf [] pat = (if pat = [] then 0 else -1)"
| "indexOf (c # cs) pat =
     (if prefix pat (c # cs) then 0
      else (let r = indexOf cs pat in if r < 0 then -1 else r + 1))"

text \<open>
  \<open>Array.prototype.join\<close>: the result starts as the first element; every later
  element is appended after the separator.
\<close>

fun join_from :: "string \<Rightarrow> string \<Rightarrow> string list \<Rightarrow> string" where
  "join_from sep r [] = r"
| "join_from sep r (x # xs) = join_from sep (r @ sep @ x) xs"

definition js_join :: "string \<Rightarrow> string list \<Rightarrow> string" where
  "js_join sep xs = (case xs of [] \<Rightarrow> [] | x # rest \<Rightarrow> join_from sep x rest)"

section \<open>Placeholders and the dependency walk\<close>

definition makePlaceholder :: "chunk_id \<Rightarrow> string" where
  "makePlaceholder i = ''*-*-*-CHUNK-SRI-HASH-'' @ id_key i @ ''-*-*-*''"

text \<open>
  \<open>findDepChunks\<close> pushes the id of every child that is not yet in the
  accumulator and then calls itself on the child, whether or not the id was new.
  The first argument is the depth of call stack that is left; a call with none
  left is the engine's \<open>RangeError\<close>.
\<close>

fun findDepChunks :: "nat \<Rightarrow> heap \<Rightarrow> cref \<Rightarrow> chunk_id list \<Rightarrow> error + chunk_id list"
  and forEachChunk :: "nat \<Rightarrow> heap \<Rightarrow> cref list \<Rightarrow> chunk_id list \<Rightarrow> error + chunk_id list"
where
  "findDepChunks 0 h c allDepChunkIds = Inl RangeError"
| "findDepChunks (Suc depth) h c allDepChunkIds =
     forEachChunk depth h (chunks (h c)) allDepChunkIds"
| "forEachChunk depth h [] allDepChunkIds = Inr allDepChunkIds"
| "forEachChunk depth h (depChunk # rest) allDepChunkIds =
     (let pushed =
        (if chunk_id (h depChunk) \<notin> set allDepChunkIds
         then allDepChunkIds @ [chunk_id (h depChunk)]
         else allDepChunkIds)
      in case findDepChunks depth h depChunk pushed of
           Inl e \<Rightarrow> Inl e
         | Inr acc \<Rightarrow> forEachChunk depth h rest acc)"

section \<open>The plugin's constructor and the digest string\<close>

text \<open>The constructor returns the value stored in \<open>this.algorithms\<close>, or throws.\<close>

fun SubresourceIntegrityPlugin :: "js_value \<Rightarrow> error + js_value list" where
  "SubresourceIntegrityPlugin (JStr s) = Inr [JStr s]"
| "SubresourceIntegrityPlugin (JArr xs) =
     (if xs = [] then Inl (Error ''Algorithms array must not be empty'') else Inr xs)"
| "SubresourceIntegrityPlugin v = Inl (Error ''Expected an array of strings or a string'')"

fun mapAlgo :: "crypto \<Rightarrow> string \<Rightarrow> js_value \<Rightarrow> error + string" where
  "mapAlgo cr source (JStr algo) =
     (if supported cr algo then Inr (algo @ ''-'' @ digest_base64 cr algo source)
      else Inl (Error ''Digest method not supported''))"
| "mapAlgo cr source v = Inl TypeError"

text \<open>\<open>Array.prototype.map\<close> with a callback that may throw: the first throw ends it.\<close>

fun map_throwing :: "('a \<Rightarrow> error + 'b) \<Rightarrow> 'a list \<Rightarrow> error + 'b list" where
  "map_throwing f [] = Inr []"
| "map_throwing f (x # xs) =
     (case f x of
        Inl e \<Rightarrow> Inl e
      | Inr y \<Rightarrow> (case map_throwing f xs of Inl e \<Rightarrow> Inl e | Inr ys \<Rightarrow> Inr (y # ys)))"

definition computeIntegrity :: "crypto \<Rightarrow> js_value list \<Rightarrow> string \<Rightarrow> error + string" where
  "computeIntegrity cr algorithms source =
     (case map_throwing (mapAlgo cr source) algorithms of
        Inl e \<Rightarrow> Inl e
      | Inr fragments \<Rightarrow> Inr (js_join '' '' fragments))"

section \<open>Replacing a range of a source\<close>

text \<open>
  Modelled from the spec: the module \<open>webpack-core/lib/ReplaceSource\<close> that
  \<open>processChunkRecursive\<close> instantiates is a dependency and is not part of the
  source tree. The spec describes its use as "splice content at pos,
  length(token) with IntegrityMap[childId]" and the asset's content as
  "replaced wholesale when substitution occurs". A \<open>ReplaceSource\<close> wraps the text
  of a source and records replacements of inclusive ranges \<open>start..end\<close>, all of
  them offsets into the wrapped text; \<open>source()\<close> applies them from the rightmost
  range to the leftmost. The pieces are put together with
  \<open>Array.prototype.join\<close>: a replacement value that is \<open>undefined\<close> contributes no
  text, and one that is not a string contributes its string form, which for an
  inherited function is the text the engine prints for a native function.
\<close>

type_synonym replacement = "int \<times> int \<times> string property"

record replace_source =
  rs_wrapped :: string
  rs_replacements :: "replacement list"

definition ReplaceSource :: "string \<Rightarrow> replace_source" where
  "ReplaceSource text = \<lparr>rs_wrapped = text, rs_replacements = []\<rparr>"

definition rs_replace :: "replace_source \<Rightarrow> int \<Rightarrow> int \<Rightarrow> string property \<Rightarrow> replace_source" where
  "rs_replace rs start end newValue =
     rs\<lparr>rs_replacements := rs_replacements rs @ [(start, end, newValue)]\<rparr>"

definition splitString :: "string \<Rightarrow> int \<Rightarrow> string \<times> string" where
  "splitString str position =
     (if position \<le> 0 then ([], str)
      else (take (nat position) str, drop (nat position) str))"

fun inserted_text :: "string option \<Rightarrow> string" where
  "inserted_text None = []"
| "inserted_text (Some s) = s"

definition native_text :: "string \<Rightarrow> string" where
  "native_text name =
     (if name = ''__proto__'' then ''[object Object]''
      else ''function '' @ (if name = ''constructor'' then ''Object'' else name)
             @ ''() { [native code] }'')"

fun joined_text :: "string property \<Rightarrow> string" where
  "joined_text Absent = []"
| "joined_text (Own s) = s"
| "joined_text (Inherited name) = native_text name"

fun replaceString :: "string \<Rightarrow> replacement list \<Rightarrow> string" where
  "replaceString remSource [] = remSource"
| "replaceString remSource ((start, end, newValue) # repls) =
     replaceString (fst (splitString (fst (splitString remSource (end + 1))) start)) repls
       @ joined_text newValue
       @ snd (splitString remSource (end + 1))"

definition rs_source :: "replace_source \<Rightarrow> string" where
  "rs_source rs =
     replaceString (rs_wrapped rs)
       (rev (sort_key (\<lambda>(start, end, newValue). end) (rs_replacements rs)))"

section \<open>The resolution pass\<close>

text \<open>
  The state of one run of the \<open>optimize-assets\<close> handler: the asset map and the
  two dictionaries of its closure. \<open>visitedByChunkId\<close> lists the keys that hold
  \<open>true\<close>. \<open>digestLog\<close> is a ghost field that the source does not have: it
  records, in order, the key of every chunk for which line 128 called
  \<open>computeIntegrity\<close>.
\<close>

record state =
  st_assets :: assets
  hashByChunkId :: "(string \<times> string) list"
  visitedByChunkId :: "string list"
  digestLog :: "string list"

text \<open>Lines 114 to 123: one replacement per dependency id whose marker is found.\<close>

fun forEachDepChunkId ::
  "string \<Rightarrow> (string \<times> string) list \<Rightarrow> chunk_id list \<Rightarrow> replace_source \<Rightarrow> replace_source"
where
  "forEachDepChunkId oldSource hashBy [] newAsset = newAsset"
| "forEachDepChunkId oldSource hashBy (depChunkId # rest) newAsset =
     (let magicMarker = makePlaceholder depChunkId;
          magicMarkerPos = indexOf oldSource magicMarker
      in forEachDepChunkId oldSource hashBy rest
           (if magicMarkerPos \<ge> 0
            then rs_replace newAsset magicMarkerPos
                   (magicMarkerPos + int (length magicMarker) - 1)
                   (obj_read hashBy (id_key depChunkId))
            else newAsset))"

text \<open>
  Lines 125 to 128: the new asset replaces the old one under the file's name, and
  its digest becomes the asset's \<open>integrity\<close> and the chunk's entry in
  \<open>hashByChunkId\<close>.
\<close>

definition storeNewAsset ::
  "crypto \<Rightarrow> js_value list \<Rightarrow> chunk \<Rightarrow> string \<Rightarrow> string \<Rightarrow> state \<Rightarrow> error + state"
where
  "storeNewAsset cr algorithms chunk chunkFile newSource st =
     (case computeIntegrity cr algorithms newSource of
        Inl e \<Rightarrow> Inl e
      | Inr dg \<Rightarrow>
          Inr (st\<lparr>st_assets :=
                      obj_set (st_assets st) chunkFile
                        \<lparr>content = newSource, integrity = Some dg\<rparr>,
                   hashByChunkId :=
                      obj_write (hashByChunkId st) (id_key (chunk_id chunk)) dg,
                   digestLog := digestLog st @ [id_key (chunk_id chunk)]\<rparr>))"

text \<open>Lines 108 to 129: the chunk's first file is patched and hashed.\<close>

definition processChunkFile ::
  "crypto \<Rightarrow> js_value list \<Rightarrow> chunk \<Rightarrow> chunk_id list \<Rightarrow> state \<Rightarrow> error + state"
where
  "processChunkFile cr algorithms chunk depChunkIds st =
     (case files chunk of
        [] \<Rightarrow> Inr st
      | chunkFile # others \<Rightarrow>
          (case obj_get (st_assets st) chunkFile of
             None \<Rightarrow> Inl TypeError
           | Some a \<Rightarrow>
               (let oldSource = content a;
                    newAsset = forEachDepChunkId oldSource (hashByChunkId st) depChunkIds
                                 (ReplaceSource oldSource)
                in storeNewAsset cr algorithms chunk chunkFile (rs_source newAsset) st)))"

text \<open>
  \<open>processChunkRecursive\<close> returns the ids it has processed and the new state.
  As in \<open>findDepChunks\<close>, the depth argument is the call stack that is left.
  A chunk whose key is an inherited name counts as visited from the start.
\<close>

fun processChunkRecursive ::
    "crypto \<Rightarrow> js_value list \<Rightarrow> heap \<Rightarrow> nat \<Rightarrow> cref \<Rightarrow> state \<Rightarrow> error + (chunk_id list \<times> state)"
  and mapChunk ::
    "crypto \<Rightarrow> js_value list \<Rightarrow> heap \<Rightarrow> nat \<Rightarrow> cref list \<Rightarrow> chunk_id list \<Rightarrow> state
       \<Rightarrow> error + (chunk_id list \<times> state)"
where
  "processChunkRecursive cr algorithms h 0 c st = Inl RangeError"
| "processChunkRecursive cr algorithms h (Suc depth) c st =
     (if visited_truthy (visitedByChunkId st) (id_key (chunk_id (h c))) then Inr ([], st)
      else
        (case mapChunk cr algorithms h depth (chunks (h c)) []
                (st\<lparr>visitedByChunkId := visitedByChunkId st @ [id_key (chunk_id (h c))]\<rparr>) of
           Inl e \<Rightarrow> Inl e
         | Inr (depChunkIds, st') \<Rightarrow>
             (case processChunkFile cr algorithms (h c) depChunkIds st' of
                Inl e \<Rightarrow> Inl e
              | Inr st'' \<Rightarrow> Inr (chunk_id (h c) # depChunkIds, st''))))"
| "mapChunk cr algorithms h depth [] depChunkIds st = Inr (depChunkIds, st)"
| "mapChunk cr algorithms h depth (depChunk # rest) depChunkIds st =
     (case processChunkRecursive cr algorithms h depth depChunk st of
        Inl e \<Rightarrow> Inl e
      | Inr (ids, st') \<Rightarrow> mapChunk cr algorithms h depth rest (depChunkIds @ ids) st')"

text \<open>Line 135: \<open>('hasRuntime' in chunk) ? chunk.hasRuntime() : chunk.entry\<close>.\<close>

definition is_root :: "chunk \<Rightarrow> bool" where
  "is_root chunk = (case hasRuntime chunk of Some b \<Rightarrow> b | None \<Rightarrow> entry chunk)"

fun forEachCompilationChunk ::
  "crypto \<Rightarrow> js_value list \<Rightarrow> heap \<Rightarrow> nat \<Rightarrow> cref list \<Rightarrow> state \<Rightarrow> error + state"
where
  "forEachCompilationChunk cr algorithms h depth [] st = Inr st"
| "forEachCompilationChunk cr algorithms h depth (c # rest) st =
     (if is_root (h c)
      then (case processChunkRecursive cr algorithms h depth c st of
              Inl e \<Rightarrow> Inl e
            | Inr (ids, st') \<Rightarrow> forEachCompilationChunk cr algorithms h depth rest st')
      else forEachCompilationChunk cr algorithms h depth rest st)"

text \<open>Lines 140 to 147: every asset without a truthy \<open>integrity\<close> is hashed as it is.\<close>

fun forEachAsset :: "crypto \<Rightarrow> js_value list \<Rightarrow> assets \<Rightarrow> error + assets" where
  "forEachAsset cr algorithms [] = Inr []"
| "forEachAsset cr algorithms ((key, a) # rest) =
     (if \<not> truthy (integrity a)
      then (case computeIntegrity cr algorithms (content a) of
              Inl e \<Rightarrow> Inl e
            | Inr dg \<Rightarrow>
                (case forEachAsset cr algorithms rest of
                   Inl e \<Rightarrow> Inl e
                 | Inr rest' \<Rightarrow> Inr ((key, a\<lparr>integrity := Some dg\<rparr>) # rest')))
      else (case forEachAsset cr algorithms rest of
              Inl e \<Rightarrow> Inl e
            | Inr rest' \<Rightarrow> Inr ((key, a) # rest')))"

definition initial_state :: "assets \<Rightarrow> state" where
  "initial_state as =
     \<lparr>st_assets = as, hashByChunkId = [], visitedByChunkId = [], digestLog = []\<rparr>"

definition resolveRoots ::
  "crypto \<Rightarrow> js_value list \<Rightarrow> heap \<Rightarrow> nat \<Rightarrow> cref list \<Rightarrow> assets \<Rightarrow> error + state"
where
  "resolveRoots cr algorithms h depth compilation_chunks as =
     forEachCompilationChunk cr algorithms h depth compilation_chunks (initial_state as)"

definition optimizeAssetsPlugin ::
  "crypto \<Rightarrow> js_value list \<Rightarrow> heap \<Rightarrow> nat \<Rightarrow> cref list \<Rightarrow> assets \<Rightarrow> error + state"
where
  "optimizeAssetsPlugin cr algorithms h depth compilation_chunks as =
     (case resolveRoots cr algorithms h depth compilation_chunks as of
        Inl e \<Rightarrow> Inl e
      | Inr st \<Rightarrow>
          (case forEachAsset cr algorithms (st_assets st) of
             Inl e \<Rightarrow> Inl e
           | Inr as' \<Rightarrow> Inr (st\<lparr>st_assets := as'\<rparr>)))"

section \<open>Markup tags\<close>

record tag =
  tagName :: string
  attributes :: "(string \<times> string) list"

definition is_alnum :: "char \<Rightarrow> bool" where
  "is_alnum c =
     (c \<in> set (''abcdefghijklmnopqrstuvwxyz'' @ ''ABCDEFGHIJKLMNOPQRSTUVWXYZ'' @ ''0123456789''))"

text \<open>
  \<open>src.replace(/\?[a-zA-Z0-9]+$/, '')\<close>: the leftmost offset at which a question
  mark is followed by one or more letters or digits up to the end of the string
  is where the string is cut; without such an offset the string is unchanged.
\<close>

fun replace_query :: "string \<Rightarrow> string" where
  "replace_query [] = []"
| "replace_query (c # cs) =
     (if c = CHR ''?'' \<and> cs \<noteq> [] \<and> list_all is_alnum cs then []
      else c # replace_query cs)"

text \<open>\<open>tag.attributes.href || tag.attributes.src\<close>.\<close>

definition href_or_src :: "tag \<Rightarrow> string option" where
  "href_or_src t =
     (if truthy (obj_get (attributes t) ''href'')
      then obj_get (attributes t) ''href''
      else obj_get (attributes t) ''src'')"

definition getTagSrc :: "tag \<Rightarrow> string option" where
  "getTagSrc t =
     (let src = href_or_src t
      in if truthy src then map_option replace_query src else src)"

definition filterTag :: "tag \<Rightarrow> bool" where
  "filterTag t =
     ((tagName t = ''script'' \<or> tagName t = ''link'') \<and> truthy (getTagSrc t))"

definition getIntegrityChecksumForAsset :: "assets \<Rightarrow> string \<Rightarrow> string option" where
  "getIntegrityChecksumForAsset as src =
     (case obj_get as src of None \<Rightarrow> None | Some a \<Rightarrow> integrity a)"

text \<open>
  Node's \<open>path\<close> module and the compiler's options are the environment of
  \<open>processTag\<close>.
\<close>

record node_path =
  path_relative :: "string \<Rightarrow> string \<Rightarrow> string"
  path_resolve :: "string list \<Rightarrow> string"
  path_dirname :: "string \<Rightarrow> string"

record options =
  output_path :: string
  output_publicPath :: "string option"
  html_filename :: string

definition asset_key :: "node_path \<Rightarrow> options \<Rightarrow> string \<Rightarrow> string" where
  "asset_key np opts ref =
     path_relative np (output_path opts)
       (path_resolve np
          [output_path opts,
           path_dirname np (html_filename opts),
           path_relative np
             (if truthy (output_publicPath opts) then inserted_text (output_publicPath opts) else [])
             ref])"

definition unprotected_warning :: "string \<Rightarrow> string" where
  "unprotected_warning src =
     ''webpack-subresource-integrity: cannot determine hash for asset '' @ [CHR 0x27] @ src
       @ [CHR 0x27] @ '', the resource will be unprotected.''"

text \<open>
  \<open>processTag\<close> returns the tag and the compilation's warnings. Node's \<open>path\<close>
  functions throw when the reference is \<open>undefined\<close>.
\<close>

definition processTag ::
  "node_path \<Rightarrow> options \<Rightarrow> assets \<Rightarrow> tag \<Rightarrow> string list \<Rightarrow> error + (tag \<times> string list)"
where
  "processTag np opts as t warnings =
     (case getTagSrc t of
        None \<Rightarrow> Inl TypeError
      | Some ref \<Rightarrow>
          (let src = asset_key np opts ref;
               checksum = getIntegrityChecksumForAsset as src
           in if \<not> truthy checksum
              then Inr (t, warnings @ [unprotected_warning src])
              else Inr (t\<lparr>attributes :=
                            obj_set (obj_set (attributes t) ''integrity'' (inserted_text checksum))
                              ''crossorigin'' ''anonymous''\<rparr>,
                        warnings)))"

fun forEachTag ::
  "node_path \<Rightarrow> options \<Rightarrow> assets \<Rightarrow> tag list \<Rightarrow> string list \<Rightarrow> error + (tag list \<times> string list)"
where
  "forEachTag np opts as [] warnings = Inr ([], warnings)"
| "forEachTag np opts as (t # ts) warnings =
     (if filterTag t
      then (case processTag np opts as t warnings of
              Inl e \<Rightarrow> Inl e
            | Inr (t', warnings') \<Rightarrow>
                (case forEachTag np opts as ts warnings' of
                   Inl e \<Rightarrow> Inl e
                 | Inr (ts', warnings'') \<Rightarrow> Inr (t' # ts', warnings'')))
      else (case forEachTag np opts as ts warnings of
              Inl e \<Rightarrow> Inl e
            | Inr (ts', warnings') \<Rightarrow> Inr (t # ts', warnings')))"

definition supportHtmlWebpack ::
  "node_path \<Rightarrow> options \<Rightarrow> assets \<Rightarrow> tag list \<Rightarrow> tag list \<Rightarrow> string list
     \<Rightarrow> error + (tag list \<times> tag list \<times> string list)"
where
  "supportHtmlWebpack np opts as head body warnings =
     (case forEachTag np opts as head warnings of
        Inl e \<Rightarrow> Inl e
      | Inr (head', warnings') \<Rightarrow>
          (case forEachTag np opts as body warnings' of
             Inl e \<Rightarrow> Inl e
           | Inr (body', warnings'') \<Rightarrow> Inr (head', body', warnings'')))"

section \<open>The digest string as the specification words it\<close>

text \<open>
  The fragments \<open><algorithm>-<base64(digest-bytes)>\<close>, one per algorithm in
  the configured order, with a single space between neighbours.
\<close>

fun spec_join_space :: "string list \<Rightarrow> string" where
  "spec_join_space [] = []"
| "spec_join_space [x] = x"
| "spec_join_space (x # y # rest) = x @ '' '' @ spec_join_space (y # rest)"

definition spec_digest_string :: "crypto \<Rightarrow> string list \<Rightarrow> string \<Rightarrow> string" where
  "spec_digest_string cr names source =
     spec_join_space (map (\<lambda>algo. algo @ ''-'' @ digest_base64 cr algo source) names)"

section \<open>Example inputs\<close>

text \<open>
  A stand-in for Node's \<open>crypto\<close> in the examples: three algorithms are known,
  and the "digest" of a content is the content itself, wrapped as \<open>h(content)\<close>.
\<close>

definition toy_crypto :: crypto where
  "toy_crypto =
     \<lparr>supported = (\<lambda>algo. algo \<in> set [''sha256'', ''sha384'', ''sha512'']),
      digest_base64 = (\<lambda>algo source. ''h('' @ source @ '')'')\<rparr>"

definition mk_chunk :: "nat \<Rightarrow> cref list \<Rightarrow> string list \<Rightarrow> bool \<Rightarrow> chunk" where
  "mk_chunk n cs fs root =
     \<lparr>chunk_id = IdNum n, chunks = cs, files = fs, hasRuntime = Some root, entry = root\<rparr>"

text \<open>
  The diamond: chunk 0 (an entry) loads chunks 1 and 2, and each of them loads
  chunk 3. Chunk 4 is a second entry that loads chunk 3 as well. Every parent's
  file carries the markers of the chunks below it; \<open>static.txt\<close> belongs to
  no chunk.
\<close>

definition diamond_heap :: heap where
  "diamond_heap r =
     (if r = 0 then mk_chunk 0 [1, 2] [''a.js''] True
      else if r = 1 then mk_chunk 1 [3] [''b.js''] False
      else if r = 2 then mk_chunk 2 [3] [''c.js''] False
      else if r = 3 then mk_chunk 3 [] [''d.js''] False
      else mk_chunk 4 [3] [''e.js''] True)"

definition diamond_assets :: assets where
  "diamond_assets =
     [(''a.js'', \<lparr>content = ''A '' @ makePlaceholder (IdNum 1) @ '' '' @ makePlaceholder (IdNum 3)
                             @ '' '' @ makePlaceholder (IdNum 2),
                  integrity = None\<rparr>),
      (''b.js'', \<lparr>content = ''B '' @ makePlaceholder (IdNum 3), integrity = None\<rparr>),
      (''c.js'', \<lparr>content = ''C '' @ makePlaceholder (IdNum 3), integrity = None\<rparr>),
      (''d.js'', \<lparr>content = ''D'', integrity = None\<rparr>),
      (''e.js'', \<lparr>content = ''E '' @ makePlaceholder (IdNum 3), integrity = None\<rparr>),
      (''static.txt'', \<lparr>content = ''hello'', integrity = None\<rparr>)]"

text \<open>The state after the resolution pass over the diamond, and after the whole handler.\<close>

definition diamond_resolved :: state where
  "diamond_resolved =
     \<lparr>st_assets =
        [(''a.js'',
          \<lparr>content = ''A sha256-h(B sha256-h(D)) sha256-h(D) sha256-h(C *-*-*-CHUNK-SRI-HASH-3-*-*-*)'',
           integrity = Some ''sha256-h(A sha256-h(B sha256-h(D)) sha256-h(D) sha256-h(C *-*-*-CHUNK-SRI-HASH-3-*-*-*))''\<rparr>),
         (''b.js'',
          \<lparr>content = ''B sha256-h(D)'', integrity = Some ''sha256-h(B sha256-h(D))''\<rparr>),
         (''c.js'',
          \<lparr>content = ''C *-*-*-CHUNK-SRI-HASH-3-*-*-*'',
           integrity = Some ''sha256-h(C *-*-*-CHUNK-SRI-HASH-3-*-*-*)''\<rparr>),
         (''d.js'', \<lparr>content = ''D'', integrity = Some ''sha256-h(D)''\<rparr>),
         (''e.js'',
          \<lparr>content = ''E *-*-*-CHUNK-SRI-HASH-3-*-*-*'',
           integrity = Some ''sha256-h(E *-*-*-CHUNK-SRI-HASH-3-*-*-*)''\<rparr>),
         (''static.txt'', \<lparr>content = ''hello'', integrity = None\<rparr>)],
      hashByChunkId =
        [(''3'', ''sha256-h(D)''),
         (''1'', ''sha256-h(B sha256-h(D))''),
         (''2'', ''sha256-h(C *-*-*-CHUNK-SRI-HASH-3-*-*-*)''),
         (''0'', ''sha256-h(A sha256-h(B sha256-h(D)) sha256-h(D) sha256-h(C *-*-*-CHUNK-SRI-HASH-3-*-*-*))''),
         (''4'', ''sha256-h(E *-*-*-CHUNK-SRI-HASH-3-*-*-*)'')],
      visitedByChunkId = [''0'', ''1'', ''3'', ''2'', ''4''],
      digestLog = [''3'', ''1'', ''2'', ''0'', ''4'']\<rparr>"

definition diamond_final :: state where
  "diamond_final =
     diamond_resolved\<lparr>st_assets :=
        [(''a.js'',
          \<lparr>content = ''A sha256-h(B sha256-h(D)) sha256-h(D) sha256-h(C *-*-*-CHUNK-SRI-HASH-3-*-*-*)'',
           integrity = Some ''sha256-h(A sha256-h(B sha256-h(D)) sha256-h(D) sha256-h(C *-*-*-CHUNK-SRI-HASH-3-*-*-*))''\<rparr>),
         (''b.js'',
          \<lparr>content = ''B sha256-h(D)'', integrity = Some ''sha256-h(B sha256-h(D))''\<rparr>),
         (''c.js'',
          \<lparr>content = ''C *-*-*-CHUNK-SRI-HASH-3-*-*-*'',
           integrity = Some ''sha256-h(C *-*-*-CHUNK-SRI-HASH-3-*-*-*)''\<rparr>),
         (''d.js'', \<lparr>content = ''D'', integrity = Some ''sha256-h(D)''\<rparr>),
         (''e.js'',
          \<lparr>content = ''E *-*-*-CHUNK-SRI-HASH-3-*-*-*'',
           integrity = Some ''sha256-h(E *-*-*-CHUNK-SRI-HASH-3-*-*-*)''\<rparr>),
         (''static.txt'', \<lparr>content = ''hello'', integrity = Some ''sha256-h(hello)''\<rparr>)]\<rparr>"





text \<open>A cycle: chunk 0 loads chunk 1 and chunk 1 loads chunk 0.\<close>

definition cycle_heap :: heap where
  "cycle_heap r =
     (if r = 0 then mk_chunk 0 [1] [''a.js''] True
      else mk_chunk 1 [0] [''b.js''] False)"

text \<open>
  A stand-in for Node's \<open>path\<close> in the examples, for file names without
  directories: the asset directory and the page's directory are the output
  directory itself.
\<close>

definition flat_path :: node_path where
  "flat_path =
     \<lparr>path_relative = (\<lambda>from to. if prefix (from @ ''/'') to then drop (length from + 1) to else to),
      path_resolve = (\<lambda>segments. case segments of
                         [out, dir, ref] \<Rightarrow> out @ ''/'' @ ref
                       | other \<Rightarrow> concat other),
      path_dirname = (\<lambda>file. ''.'')\<rparr>"

definition flat_options :: options where
  "flat_options =
     \<lparr>output_path = ''/out'', output_publicPath = None, html_filename = ''index.html''\<rparr>"

definition script_tag :: "string \<Rightarrow> tag" where
  "script_tag ref = \<lparr>tagName = ''script'', attributes = [(''src'', ref)]\<rparr>"

section \<open>Notions used in the statements\<close>

text \<open>The marker of a dependency id occurs in a content.\<close>

definition present :: "string \<Rightarrow> chunk_id \<Rightarrow> bool" where
  "present oldSource d = (0 \<le> indexOf oldSource (makePlaceholder d))"

text \<open>The range of the first occurrence of a marker, with the value that replaces it.\<close>

definition first_range :: "string \<Rightarrow> (string \<times> string) list \<Rightarrow> chunk_id \<Rightarrow> replacement" where
  "first_range oldSource hashBy d =
     (indexOf oldSource (makePlaceholder d),
      indexOf oldSource (makePlaceholder d) + int (length (makePlaceholder d)) - 1,
      obj_read hashBy (id_key d))"







text \<open>
  How one part of the resolution pass changes the state: the visited keys only
  grow, and the digests computed meanwhile are for distinct keys that were
  visited meanwhile.
\<close>

definition grows :: "state \<Rightarrow> state \<Rightarrow> bool" where
  "grows st st' =
     (set (visitedByChunkId st) \<subseteq> set (visitedByChunkId st')
      \<and> (\<exists>new. digestLog st' = digestLog st @ new \<and> distinct new
             \<and> set new \<subseteq> set (visitedByChunkId st') - set (visitedByChunkId st)))"

text \<open>
  The key of a chunk, the relation "loads" between a chunk and the chunks in its
  \<open>chunks\<close> list, and the chunks that the resolution pass can reach: those
  below an entry of \<open>compilation.chunks\<close>. The pass does not descend into a
  chunk whose key is an inherited name, so such a chunk loads nothing.
\<close>

definition chunk_key :: "heap \<Rightarrow> cref \<Rightarrow> string" where
  "chunk_key h c = id_key (chunk_id (h c))"

definition loads :: "heap \<Rightarrow> (cref \<times> cref) set" where
  "loads h =
     {(c, c'). chunk_key h c \<notin> set object_prototype_names \<and> c' \<in> set (chunks (h c))}"

definition reached :: "heap \<Rightarrow> cref list \<Rightarrow> cref set" where
  "reached h compilation_chunks =
     {c. \<exists>root \<in> set compilation_chunks. is_root (h root) \<and> (root, c) \<in> (loads h)\<^sup>*}"



text \<open>
  What a run needs in order to return: algorithms that Node knows, an asset for
  the first file of every chunk, and a frame of call stack for every key that is
  not visited yet.
\<close>

fun known_algorithm :: "crypto \<Rightarrow> js_value \<Rightarrow> bool" where
  "known_algorithm cr (JStr algo) = supported cr algo"
| "known_algorithm cr v = False"

definition files_known :: "heap \<Rightarrow> cref set \<Rightarrow> state \<Rightarrow> bool" where
  "files_known h R st =
     (\<forall>x \<in> R. \<forall>f others. files (h x) = f # others \<longrightarrow> f \<in> fst ` set (st_assets st))"

definition unvisited :: "heap \<Rightarrow> cref set \<Rightarrow> state \<Rightarrow> string set" where
  "unvisited h R st = chunk_key h ` R - set (visitedByChunkId st)"

text \<open>
  What the sweep of lines 140 to 147 does to one entry of the asset map: the name
  and the content stay; an integrity value that is there stays, and a missing one
  becomes the digest of the content.
\<close>

definition swept :: "crypto \<Rightarrow> js_value list \<Rightarrow> string \<times> asset \<Rightarrow> string \<times> asset \<Rightarrow> bool" where
  "swept cr algorithms before after =
     (fst after = fst before
      \<and> content (snd after) = content (snd before)
      \<and> (if truthy (integrity (snd before)) then snd after = snd before
         else (\<exists>dg. computeIntegrity cr algorithms (content (snd before)) = Inr dg
                 \<and> integrity (snd after) = Some dg)))"

text \<open>
  Chunk 2 of the diamond at the moment its file is patched: chunk 3 below it is
  hashed, and \<open>c.js\<close> holds the given text.
\<close>

definition dep_asset :: "string \<Rightarrow> asset" where
  "dep_asset text = \<lparr>content = text, integrity = None\<rparr>"

definition dep_state :: "string \<Rightarrow> state" where
  "dep_state text =
     \<lparr>st_assets = [(''c.js'', \<lparr>content = text, integrity = None\<rparr>)],
      hashByChunkId = [(''3'', ''sha256-h(D)'')],
      visitedByChunkId = [''2'', ''3''],
      digestLog = [''3'']\<rparr>"


section \<open>Strings, dictionaries and the example environment\<close>

lemma join_from_concat: "join_from sep r xs = r @ concat (map (\<lambda>x. sep @ x) xs)"
  by (induction xs arbitrary: r) simp_all

lemma spec_join_space_Cons:
  "spec_join_space (x # xs) = x @ concat (map (\<lambda>y. '' '' @ y) xs)"
  by (induction xs arbitrary: x) simp_all

lemma js_join_space_spec: "js_join '' '' xs = spec_join_space xs"
  by (cases xs) (simp_all add: js_join_def join_from_concat spec_join_space_Cons)

lemma map_throwing_mapAlgo:
  "list_all (supported cr) names \<Longrightarrow>
   map_throwing (mapAlgo cr source) (map JStr names) =
     Inr (map (\<lambda>algo. algo @ ''-'' @ digest_base64 cr algo source) names)"
  by (induction names) simp_all

lemma string_of_nat_digits:
  "string_of_nat 0 = ''0''" "string_of_nat (Suc 0) = ''1''" "string_of_nat 2 = ''2''"
  "string_of_nat 3 = ''3''" "string_of_nat 4 = ''4''"
  by (simp_all add: string_of_nat.simps digit_char_def)

lemma obj_get_obj_set: "obj_get (obj_set obj k v) k' = (if k' = k then Some v else obj_get obj k')"
  by (induction obj) (auto simp: obj_get_def)

lemma placeholders:
  "makePlaceholder (IdNum 0) = ''*-*-*-CHUNK-SRI-HASH-0-*-*-*''"
  "makePlaceholder (IdNum (Suc 0)) = ''*-*-*-CHUNK-SRI-HASH-1-*-*-*''"
  "makePlaceholder (IdNum 2) = ''*-*-*-CHUNK-SRI-HASH-2-*-*-*''"
  "makePlaceholder (IdNum 3) = ''*-*-*-CHUNK-SRI-HASH-3-*-*-*''"
  "makePlaceholder (IdNum 4) = ''*-*-*-CHUNK-SRI-HASH-4-*-*-*''"
  by (simp_all add: makePlaceholder_def string_of_nat_digits)

lemma placeholder_3: "makePlaceholder (IdNum 3) = ''*-*-*-CHUNK-SRI-HASH-3-*-*-*''"
  by (simp add: makePlaceholder_def string_of_nat_digits)

lemma toy_sha256: "computeIntegrity toy_crypto [JStr ''sha256''] text = Inr (''sha256-h('' @ text @ '')'')"
  by (simp add: computeIntegrity_def toy_crypto_def js_join_def)

lemma indexOf_ge: "- 1 \<le> indexOf s pat"
  by (induction s) (simp_all add: Let_def)

lemma indexOf_found:
  "0 \<le> indexOf s pat \<Longrightarrow>
     prefix pat (drop (nat (indexOf s pat)) s)
     \<and> (\<forall>j < nat (indexOf s pat). \<not> prefix pat (drop j s))"
proof (induction s)
  case Nil
  then show ?case by (simp split: if_splits)
next
  case (Cons c cs)
  show ?case
  proof (cases "prefix pat (c # cs)")
    case True
    then show ?thesis by simp
  next
    case False
    let ?r = "indexOf cs pat"
    from False Cons.prems have r: "0 \<le> ?r" and idx: "indexOf (c # cs) pat = ?r + 1"
      by (simp_all add: Let_def split: if_splits)
    from r have n: "nat (?r + 1) = Suc (nat ?r)" by simp
    from Cons.IH [OF r] have ih1: "prefix pat (drop (nat ?r) cs)"
      and ih2: "\<forall>j < nat ?r. \<not> prefix pat (drop j cs)" by simp_all
    have "\<forall>j < Suc (nat ?r). \<not> prefix pat (drop j (c # cs))"
    proof (intro allI impI)
      fix j assume "j < Suc (nat ?r)"
      then show "\<not> prefix pat (drop j (c # cs))"
        using False ih2 by (cases j) simp_all
    qed
    with ih1 show ?thesis by (simp only: idx n) simp
  qed
qed

lemma indexOf_split:
  assumes "0 \<le> indexOf s pat"
  shows "s = take (nat (indexOf s pat)) s @ pat @ drop (nat (indexOf s pat) + length pat) s"
    and "nat (indexOf s pat) + length pat \<le> length s"
proof -
  let ?k = "nat (indexOf s pat)"
  from indexOf_found [OF assms] obtain rest where d: "drop ?k s = pat @ rest"
    by (auto simp: prefix_def)
  have "drop (?k + length pat) s = drop (length pat) (drop ?k s)"
    by (simp add: add.commute)
  with d have r: "drop (?k + length pat) s = rest" by simp
  have "s = take ?k s @ drop ?k s" by simp
  with d r show "s = take ?k s @ pat @ drop (?k + length pat) s" by simp
  have "length (drop ?k s) = length s - ?k" by simp
  with d have "length pat \<le> length s - ?k" by simp
  moreover have "?k \<le> length s"
  proof (rule ccontr)
    assume "\<not> ?k \<le> length s"
    then have "drop ?k s = []" by simp
    with d have "pat = []" "rest = []" by simp_all
    with indexOf_found [OF assms] have "\<forall>j < ?k. \<not> prefix [] (drop j s)" by simp
    moreover from \<open>\<not> ?k \<le> length s\<close> have "0 < ?k" by simp
    ultimately show False by auto
  qed
  ultimately show "?k + length pat \<le> length s" by simp
qed

lemma join_from_nonempty: "r \<noteq> [] \<Longrightarrow> join_from sep r xs \<noteq> []"
  by (induction xs arbitrary: r) simp_all

lemma mapAlgo_nonempty: "mapAlgo cr source algo = Inr fragment \<Longrightarrow> fragment \<noteq> []"
  by (cases algo) (auto split: if_splits)

lemma computeIntegrity_nonempty:
  assumes "algorithms \<noteq> []" and "computeIntegrity cr algorithms source = Inr dg"
  shows "dg \<noteq> []"
proof -
  from assms(1) obtain algo rest where a: "algorithms = algo # rest" by (cases algorithms) auto
  from assms(2) a obtain fragment fragments where
    "mapAlgo cr source algo = Inr fragment" and "dg = js_join '' '' (fragment # fragments)"
    by (auto simp: computeIntegrity_def split: sum.splits)
  then show ?thesis by (simp add: js_join_def join_from_nonempty mapAlgo_nonempty)
qed

section \<open>The constructor\<close>

text \<open>
  Claim C7. The constructor throws exactly when its argument is neither a string
  nor a non-empty array: a value of any other kind and the empty array are
  rejected, a string is stored as a one-element list, and a non-empty array is
  stored as it is.
\<close>

theorem constructor_rejects_exactly:
  "((\<exists>e. SubresourceIntegrityPlugin a = Inl e)
      \<longleftrightarrow> \<not> ((\<exists>s. a = JStr s) \<or> (\<exists>xs. a = JArr xs \<and> xs \<noteq> [])))
   \<and> SubresourceIntegrityPlugin (JStr s) = Inr [JStr s]
   \<and> (xs \<noteq> [] \<longrightarrow> SubresourceIntegrityPlugin (JArr xs) = Inr xs)
   \<and> SubresourceIntegrityPlugin (JArr []) = Inl (Error ''Algorithms array must not be empty'')"
  by (cases a) auto

theorem constructor_rejects_exactly_witness:
  "(\<exists>e. SubresourceIntegrityPlugin (JNum 256) = Inl e)
   \<and> (\<exists>e. SubresourceIntegrityPlugin (JArr []) = Inl e)
   \<and> SubresourceIntegrityPlugin (JStr ''sha256'') = Inr [JStr ''sha256'']
   \<and> SubresourceIntegrityPlugin (JArr [JStr ''sha256'', JStr ''sha384''])
       = Inr [JStr ''sha256'', JStr ''sha384'']"
  using constructor_rejects_exactly [of "JNum 256" "''sha256''" "[JStr ''sha256'', JStr ''sha384'']"]
        constructor_rejects_exactly [of "JArr []" "''sha256''" "[JStr ''sha256'', JStr ''sha384'']"]
  by simp

text \<open>
  Claim C10. The elements of an array are not inspected: every non-empty array,
  whatever it holds, is accepted and stored unchanged.
\<close>

theorem constructor_keeps_array:
  "xs \<noteq> [] \<Longrightarrow> SubresourceIntegrityPlugin (JArr xs) = Inr xs"
  by simp

theorem constructor_keeps_array_witness:
  "[JNum 5, JNull] \<noteq> [] \<and> SubresourceIntegrityPlugin (JArr [JNum 5, JNull]) = Inr [JNum 5, JNull]"
proof -
  have ne: "[JNum 5, JNull] \<noteq> []" by simp
  from constructor_keeps_array [OF ne] ne show ?thesis by simp
qed

lemma constructor_nonempty: "SubresourceIntegrityPlugin arg = Inr algorithms \<Longrightarrow> algorithms \<noteq> []"
  by (cases arg) (auto split: if_splits)

section \<open>The digest string\<close>

text \<open>
  Claim C5. For a non-empty list of algorithm names that Node knows, the integrity
  string of a content is the list of fragments \<open>name-digest\<close>, every digest taken
  over that same content, in the configured order and with one space between
  neighbours.
\<close>

theorem computeIntegrity_format:
  assumes "names \<noteq> []" and "list_all (supported cr) names"
  shows "computeIntegrity cr (map JStr names) source = Inr (spec_digest_string cr names source)"
  using assms(2)
  by (simp add: computeIntegrity_def map_throwing_mapAlgo js_join_space_spec spec_digest_string_def)

theorem computeIntegrity_format_witness:
  "[''sha256'', ''sha384''] \<noteq> [] \<and> list_all (supported toy_crypto) [''sha256'', ''sha384'']
   \<and> computeIntegrity toy_crypto [JStr ''sha256'', JStr ''sha384''] ''hello''
       = Inr ''sha256-h(hello) sha384-h(hello)''"
proof -
  have ne: "[''sha256'', ''sha384''] \<noteq> []" by simp
  have ok: "list_all (supported toy_crypto) [''sha256'', ''sha384'']"
    by (simp add: toy_crypto_def)
  have "spec_digest_string toy_crypto [''sha256'', ''sha384''] ''hello'' = ''sha256-h(hello) sha384-h(hello)''"
    by (simp add: spec_digest_string_def toy_crypto_def)
  with computeIntegrity_format [OF ne ok, of "''hello''"] ne ok show ?thesis by simp
qed

section \<open>The dependency walk\<close>

text \<open>
  The accumulator never holds an id twice, and on the diamond the walk from
  chunk 0 returns the three ids below it.
\<close>

lemma findDepChunks_distinct:
  shows "findDepChunks depth h c acc = Inr acc' \<Longrightarrow> distinct acc \<Longrightarrow> distinct acc'"
    and "forEachChunk depth h cs acc = Inr acc' \<Longrightarrow> distinct acc \<Longrightarrow> distinct acc'"
proof (induction depth h c acc and depth h cs acc arbitrary: acc' and acc'
       rule: findDepChunks_forEachChunk.induct)
  case (1 h c allDepChunkIds)
  then show ?case by simp
next
  case (2 depth h c allDepChunkIds)
  then show ?case by simp
next
  case (3 depth h allDepChunkIds)
  then show ?case by simp
next
  case (4 depth h depChunk rest allDepChunkIds)
  let ?pushed = "if chunk_id (h depChunk) \<notin> set allDepChunkIds
                 then allDepChunkIds @ [chunk_id (h depChunk)] else allDepChunkIds"
  from "4.prems"(1) obtain acc1 where
    f: "findDepChunks depth h depChunk ?pushed = Inr acc1"
    and r: "forEachChunk depth h rest acc1 = Inr acc'"
    by (auto simp: Let_def split: sum.splits)
  from "4.prems"(2) have "distinct ?pushed" by simp
  with "4.IH"(1) [OF refl f] have "distinct acc1" .
  with "4.IH"(2) [OF refl f r] show ?case .
qed

lemma findDepChunks_diamond:
  "findDepChunks (Suc (Suc (Suc depth))) diamond_heap 0 [] = Inr [IdNum 1, IdNum 3, IdNum 2]"
  by (simp add: diamond_heap_def mk_chunk_def)

lemma findDepChunks_cycle_any:
  "findDepChunks depth cycle_heap c acc = Inl RangeError"
proof (induction depth arbitrary: c acc)
  case 0
  show ?case by simp
next
  case (Suc depth)
  have "chunks (cycle_heap c) = [if c = 0 then 1 else 0]"
    by (simp add: cycle_heap_def mk_chunk_def)
  then show ?case by (simp add: Suc.IH)
qed

text \<open>
  Claim C2. The claim says that the walk ends on every finite graph, cycles
  included, and that meeting an id again causes no further traversal. On the
  cycle of two chunks it does not end: whatever depth of call stack is
  available, the walk uses all of it and never returns a list.
\<close>

theorem findDepChunks_cycle_never_returns:
  "findDepChunks depth cycle_heap 0 [] = Inl RangeError"
  by (rule findDepChunks_cycle_any)

section \<open>Patching a chunk's file\<close>

lemma forEachDepChunkId_replacements:
  "forEachDepChunkId oldSource hashBy ds rs =
     rs\<lparr>rs_replacements := rs_replacements rs
           @ map (first_range oldSource hashBy) (filter (present oldSource) ds)\<rparr>"
  by (induction ds arbitrary: rs)
     (simp_all add: Let_def rs_replace_def present_def first_range_def)

lemma forEachDepChunkId_filter:
  "forEachDepChunkId oldSource hashBy (filter (present oldSource) ds) rs
     = forEachDepChunkId oldSource hashBy ds rs"
  by (simp add: forEachDepChunkId_replacements)

lemma filter_present_removeAll:
  "\<not> present oldSource d \<Longrightarrow>
     filter (present oldSource) (removeAll d ds) = filter (present oldSource) ds"
  by (induction ds) auto

lemma forEachDepChunkId_removeAll:
  "\<not> present oldSource d \<Longrightarrow>
     forEachDepChunkId oldSource hashBy (removeAll d ds) rs
       = forEachDepChunkId oldSource hashBy ds rs"
  by (simp add: forEachDepChunkId_replacements filter_present_removeAll)

lemma forEachDepChunkId_none:
  "\<forall>d \<in> set ds. \<not> present oldSource d \<Longrightarrow> forEachDepChunkId oldSource hashBy ds rs = rs"
  by (induction ds arbitrary: rs) (simp_all add: Let_def present_def)

lemma rs_source_untouched: "rs_source (ReplaceSource text) = text"
  by (simp add: rs_source_def ReplaceSource_def)





subsection \<open>What no range meets stays\<close>



subsection \<open>Ranges that lie apart\<close>











text \<open>
  Claim C6. When the marker of a dependency id does not occur in the parent's
  content, the id is passed over: the outcome for the parent is the one obtained
  without that id, and when no marker occurs at all the parent's asset keeps its
  content and its digest is the digest of that content.
\<close>

theorem missing_placeholder_skipped:
  assumes "files chunk = chunkFile # others"
    and "obj_get (st_assets st) chunkFile = Some a"
    and "indexOf (content a) (makePlaceholder d) < 0"
  shows "processChunkFile cr algorithms chunk depChunkIds st
           = processChunkFile cr algorithms chunk (removeAll d depChunkIds) st
       \<and> ((\<forall>x \<in> set depChunkIds. indexOf (content a) (makePlaceholder x) < 0) \<longrightarrow>
            processChunkFile cr algorithms chunk depChunkIds st
              = storeNewAsset cr algorithms chunk chunkFile (content a) st)"
proof (intro conjI impI)
  from assms(3) have "\<not> present (content a) d" by (simp add: present_def)
  then show "processChunkFile cr algorithms chunk depChunkIds st
           = processChunkFile cr algorithms chunk (removeAll d depChunkIds) st"
    using assms(1,2) by (simp add: processChunkFile_def forEachDepChunkId_removeAll Let_def)
next
  assume "\<forall>x \<in> set depChunkIds. indexOf (content a) (makePlaceholder x) < 0"
  then have "\<forall>x \<in> set depChunkIds. \<not> present (content a) x" by (auto simp: present_def)
  then have "forEachDepChunkId (content a) (hashByChunkId st) depChunkIds
               (ReplaceSource (content a)) = ReplaceSource (content a)"
    by (rule forEachDepChunkId_none)
  then show "processChunkFile cr algorithms chunk depChunkIds st
              = storeNewAsset cr algorithms chunk chunkFile (content a) st"
    using assms(1,2) by (simp add: processChunkFile_def rs_source_untouched Let_def)
qed

theorem missing_placeholder_skipped_witness:
  "files (mk_chunk 2 [3] [''c.js''] False) = ''c.js'' # []
   \<and> obj_get (st_assets (dep_state ''C'')) ''c.js'' = Some (dep_asset ''C'')
   \<and> indexOf (content (dep_asset ''C'')) (makePlaceholder (IdNum 3)) < 0
   \<and> processChunkFile toy_crypto [JStr ''sha256''] (mk_chunk 2 [3] [''c.js''] False)
        [IdNum 3] (dep_state ''C'')
      = Inr \<lparr>st_assets = [(''c.js'', \<lparr>content = ''C'', integrity = Some ''sha256-h(C)''\<rparr>)],
             hashByChunkId = [(''3'', ''sha256-h(D)''), (''2'', ''sha256-h(C)'')],
             visitedByChunkId = [''2'', ''3''],
             digestLog = [''3'', ''2'']\<rparr>"
proof -
  let ?c = "mk_chunk 2 [3] [''c.js''] False"
  have f: "files ?c = ''c.js'' # []"
    by (simp add: mk_chunk_def)
  have g: "obj_get (st_assets (dep_state ''C'')) ''c.js'' = Some (dep_asset ''C'')"
    by (simp add: dep_state_def dep_asset_def obj_get_def)
  have i: "indexOf (content (dep_asset ''C'')) (makePlaceholder (IdNum 3)) < 0"
    by (simp add: dep_asset_def placeholder_3)
  have all: "\<forall>x \<in> set [IdNum 3]. indexOf (content (dep_asset ''C'')) (makePlaceholder x) < 0"
    using i by simp
  have k: "id_key (chunk_id ?c) = ''2''"
    by (simp add: mk_chunk_def string_of_nat_digits)
  have c: "content (dep_asset ''C'') = ''C''"
    by (simp add: dep_asset_def)
  from missing_placeholder_skipped [OF f g i, of toy_crypto "[JStr ''sha256'']" "[IdNum 3]"] all
  have "processChunkFile toy_crypto [JStr ''sha256''] ?c [IdNum 3] (dep_state ''C'')
        = storeNewAsset toy_crypto [JStr ''sha256''] ?c ''c.js'' (content (dep_asset ''C''))
            (dep_state ''C'')"
    by blast
  then have "processChunkFile toy_crypto [JStr ''sha256''] ?c [IdNum 3] (dep_state ''C'')
        = Inr \<lparr>st_assets = [(''c.js'', \<lparr>content = ''C'', integrity = Some ''sha256-h(C)''\<rparr>)],
               hashByChunkId = [(''3'', ''sha256-h(D)''), (''2'', ''sha256-h(C)'')],
               visitedByChunkId = [''2'', ''3''],
               digestLog = [''3'', ''2'']\<rparr>"
    by (simp add: storeNewAsset_def k c toy_sha256 dep_state_def obj_write_def)
  with f g i show ?thesis by blast
qed





section \<open>The resolution pass\<close>

lemma grows_refl: "grows st st"
  by (simp add: grows_def)

lemma grows_trans:
  assumes "grows st st1" and "grows st1 st2"
  shows "grows st st2"
proof -
  from assms(1) obtain new1 where
    v1: "set (visitedByChunkId st) \<subseteq> set (visitedByChunkId st1)"
    and l1: "digestLog st1 = digestLog st @ new1" and d1: "distinct new1"
    and s1: "set new1 \<subseteq> set (visitedByChunkId st1) - set (visitedByChunkId st)"
    by (auto simp: grows_def)
  from assms(2) obtain new2 where
    v2: "set (visitedByChunkId st1) \<subseteq> set (visitedByChunkId st2)"
    and l2: "digestLog st2 = digestLog st1 @ new2" and d2: "distinct new2"
    and s2: "set new2 \<subseteq> set (visitedByChunkId st2) - set (visitedByChunkId st1)"
    by (auto simp: grows_def)
  from s1 s2 have disj: "set new1 \<inter> set new2 = {}" by blast
  have "digestLog st2 = digestLog st @ (new1 @ new2)" by (simp add: l1 l2)
  moreover from d1 d2 disj have "distinct (new1 @ new2)" by simp
  moreover from s1 s2 v1 v2
  have "set (new1 @ new2) \<subseteq> set (visitedByChunkId st2) - set (visitedByChunkId st)"
    by auto
  moreover from v1 v2 have "set (visitedByChunkId st) \<subseteq> set (visitedByChunkId st2)" by blast
  ultimately show ?thesis unfolding grows_def by blast
qed

lemma storeNewAsset_log:
  "storeNewAsset cr algorithms chunk chunkFile newSource st = Inr st' \<Longrightarrow>
     visitedByChunkId st' = visitedByChunkId st
     \<and> digestLog st' = digestLog st @ [id_key (chunk_id chunk)]"
  by (auto simp: storeNewAsset_def split: sum.splits)

lemma processChunkFile_log:
  "processChunkFile cr algorithms chunk depChunkIds st = Inr st' \<Longrightarrow>
     visitedByChunkId st' = visitedByChunkId st
     \<and> (digestLog st' = digestLog st
        \<or> digestLog st' = digestLog st @ [id_key (chunk_id chunk)])"
  by (auto simp: processChunkFile_def Let_def split: list.splits option.splits
        dest: storeNewAsset_log)

lemma mark_then_hash:
  assumes k: "key \<notin> set (visitedByChunkId st)"
    and g: "grows (st\<lparr>visitedByChunkId := visitedByChunkId st @ [key]\<rparr>) st1"
    and v: "visitedByChunkId st2 = visitedByChunkId st1"
    and l: "digestLog st2 = digestLog st1 \<or> digestLog st2 = digestLog st1 @ [key]"
  shows "grows st st2"
proof -
  from g obtain new where
    v1: "set (visitedByChunkId st) \<union> {key} \<subseteq> set (visitedByChunkId st1)"
    and l1: "digestLog st1 = digestLog st @ new" and d1: "distinct new"
    and s1: "set new \<subseteq> set (visitedByChunkId st1) - (set (visitedByChunkId st) \<union> {key})"
    by (auto simp: grows_def)
  from l show ?thesis
  proof
    assume "digestLog st2 = digestLog st1"
    with v v1 l1 d1 s1 show ?thesis unfolding grows_def by auto
  next
    assume a: "digestLog st2 = digestLog st1 @ [key]"
    from s1 have "key \<notin> set new" by blast
    with d1 have "distinct (new @ [key])" by simp
    moreover from a l1 have "digestLog st2 = digestLog st @ (new @ [key])" by simp
    moreover from s1 v1 k v
    have "set (new @ [key]) \<subseteq> set (visitedByChunkId st2) - set (visitedByChunkId st)"
      by auto
    moreover from v v1 have "set (visitedByChunkId st) \<subseteq> set (visitedByChunkId st2)" by auto
    ultimately show ?thesis unfolding grows_def by blast
  qed
qed

lemma processChunkRecursive_grows:
  shows "processChunkRecursive cr algorithms h depth c st = Inr (ids, st') \<Longrightarrow> grows st st'"
    and "mapChunk cr algorithms h depth cs acc st = Inr (ids, st') \<Longrightarrow> grows st st'"
proof (induction cr algorithms h depth c st and cr algorithms h depth cs acc st
       arbitrary: ids st' and ids st' rule: processChunkRecursive_mapChunk.induct)
  case (1 cr algorithms h c st)
  then show ?case by simp
next
  case (2 cr algorithms h depth c st)
  let ?key = "id_key (chunk_id (h c))"
  show ?case
  proof (cases "visited_truthy (visitedByChunkId st) ?key")
    case True
    with "2.prems" show ?thesis by (simp add: grows_refl)
  next
    case False
    let ?st1 = "st\<lparr>visitedByChunkId := visitedByChunkId st @ [?key]\<rparr>"
    from False "2.prems" obtain deps st2 where
      m: "mapChunk cr algorithms h depth (chunks (h c)) [] ?st1 = Inr (deps, st2)"
      and f: "processChunkFile cr algorithms (h c) deps st2 = Inr st'"
      by (auto split: sum.splits prod.splits)
    from False have nv: "?key \<notin> set (visitedByChunkId st)" by (simp add: visited_truthy_def)
    from "2.IH" [OF False m] have g: "grows ?st1 st2" .
    from processChunkFile_log [OF f]
    have "visitedByChunkId st' = visitedByChunkId st2"
      and "digestLog st' = digestLog st2 \<or> digestLog st' = digestLog st2 @ [?key]"
      by simp_all
    with nv g show ?thesis by (rule mark_then_hash)
  qed
next
  case (3 cr algorithms h depth depChunkIds st)
  then show ?case by (simp add: grows_refl)
next
  case (4 cr algorithms h depth depChunk rest depChunkIds st)
  from "4.prems" obtain ids1 st1 where
    p: "processChunkRecursive cr algorithms h depth depChunk st = Inr (ids1, st1)"
    and m: "mapChunk cr algorithms h depth rest (depChunkIds @ ids1) st1 = Inr (ids, st')"
    by (auto split: sum.splits prod.splits)
  from "4.IH"(1) [OF p] have "grows st st1" .
  moreover from "4.IH"(2) [OF p refl m] have "grows st1 st'" .
  ultimately show ?case by (rule grows_trans)
qed



lemma grows_visited: "grows st st' \<Longrightarrow> set (visitedByChunkId st) \<subseteq> set (visitedByChunkId st')"
  by (simp add: grows_def)







subsection \<open>Only chunks with a file are hashed\<close>







subsection \<open>The chunks below the entries\<close>

lemma reached_closed:
  "\<forall>x \<in> reached h cs. chunk_key h x \<notin> set object_prototype_names
      \<longrightarrow> set (chunks (h x)) \<subseteq> reached h cs"
proof (intro ballI impI subsetI)
  fix x y assume "x \<in> reached h cs" and "chunk_key h x \<notin> set object_prototype_names"
    and "y \<in> set (chunks (h x))"
  then obtain root where "root \<in> set cs" "is_root (h root)" "(root, x) \<in> (loads h)\<^sup>*"
    and "(x, y) \<in> loads h"
    by (auto simp: reached_def loads_def)
  then have "(root, y) \<in> (loads h)\<^sup>*" by (meson rtrancl.rtrancl_into_rtrancl)
  with \<open>root \<in> set cs\<close> \<open>is_root (h root)\<close> show "y \<in> reached h cs"
    by (auto simp: reached_def)
qed

lemma reached_roots: "\<forall>c \<in> set cs. is_root (h c) \<longrightarrow> c \<in> reached h cs"
  by (auto simp: reached_def)





lemma diamond_run:
  "resolveRoots toy_crypto [JStr ''sha256''] diamond_heap (Suc (Suc (Suc (Suc depth))))
     [0, 1, 2, 3, 4] diamond_assets = Inr diamond_resolved"
  by (simp add: resolveRoots_def initial_state_def diamond_heap_def diamond_assets_def
        mk_chunk_def is_root_def processChunkFile_def storeNewAsset_def toy_sha256
        placeholders string_of_nat_digits obj_get_def Let_def ReplaceSource_def rs_replace_def
        rs_source_def splitString_def diamond_resolved_def visited_truthy_def
        object_prototype_names_def obj_read_def obj_write_def)










text \<open>
  Claim C1. The claim says that the digest of every chunk below a parent is put
  into the parent's content before the parent is hashed, and that in the
  diamond the digest of chunk 3 is in the content of both chunk 1 and chunk 2.
  On the diamond the pass puts it into \<open>b.js\<close> only: chunk 3 is already visited
  when chunk 2 and the second entry reach it, so \<open>c.js\<close> and \<open>e.js\<close> keep the
  marker of chunk 3 and are hashed with it.
\<close>

theorem diamond_marker_left_in_second_parent:
  "resolveRoots toy_crypto [JStr ''sha256''] diamond_heap (Suc (Suc (Suc (Suc depth))))
     [0, 1, 2, 3, 4] diamond_assets = Inr diamond_resolved
   \<and> obj_get (hashByChunkId diamond_resolved) ''3'' = Some ''sha256-h(D)''
   \<and> map_option content (obj_get (st_assets diamond_resolved) ''b.js'') = Some ''B sha256-h(D)''
   \<and> map_option content (obj_get diamond_assets ''c.js'')
        = Some (''C '' @ makePlaceholder (IdNum 3))
   \<and> map_option content (obj_get (st_assets diamond_resolved) ''c.js'')
        = Some (''C '' @ makePlaceholder (IdNum 3))
   \<and> map_option integrity (obj_get (st_assets diamond_resolved) ''c.js'')
        = Some (Some (''sha256-h(C '' @ makePlaceholder (IdNum 3) @ '')''))
   \<and> map_option content (obj_get (st_assets diamond_resolved) ''e.js'')
        = Some (''E '' @ makePlaceholder (IdNum 3))"
proof (intro conjI)
  show "resolveRoots toy_crypto [JStr ''sha256''] diamond_heap (Suc (Suc (Suc (Suc depth))))
          [0, 1, 2, 3, 4] diamond_assets = Inr diamond_resolved"
    by (rule diamond_run)
  show "obj_get (hashByChunkId diamond_resolved) ''3'' = Some ''sha256-h(D)''"
    by (simp add: diamond_resolved_def obj_get_def)
  show "map_option content (obj_get (st_assets diamond_resolved) ''b.js'') = Some ''B sha256-h(D)''"
    by (simp add: diamond_resolved_def obj_get_def)
  show "map_option content (obj_get diamond_assets ''c.js'')
          = Some (''C '' @ makePlaceholder (IdNum 3))"
    by (simp add: diamond_assets_def obj_get_def)
  show "map_option content (obj_get (st_assets diamond_resolved) ''c.js'')
          = Some (''C '' @ makePlaceholder (IdNum 3))"
    by (simp add: diamond_resolved_def obj_get_def placeholders)
  show "map_option integrity (obj_get (st_assets diamond_resolved) ''c.js'')
          = Some (Some (''sha256-h(C '' @ makePlaceholder (IdNum 3) @ '')''))"
    by (simp add: diamond_resolved_def obj_get_def placeholders)
  show "map_option content (obj_get (st_assets diamond_resolved) ''e.js'')
          = Some (''E '' @ makePlaceholder (IdNum 3))"
    by (simp add: diamond_resolved_def obj_get_def placeholders)
qed

section \<open>The sweep over the asset map\<close>

lemma forEachAsset_swept:
  "forEachAsset cr algorithms as = Inr as' \<Longrightarrow> list_all2 (swept cr algorithms) as as'"
proof (induction as arbitrary: as')
  case Nil
  then show ?case by simp
next
  case (Cons entry as)
  obtain key a where e: "entry = (key, a)" by (cases entry)
  from Cons.prems e obtain a' rest' where
    r: "forEachAsset cr algorithms as = Inr rest'" and as': "as' = (key, a') # rest'"
    and a': "if truthy (integrity a) then a' = a
             else (\<exists>dg. computeIntegrity cr algorithms (content a) = Inr dg
                     \<and> a' = a\<lparr>integrity := Some dg\<rparr>)"
    by (auto split: if_splits sum.splits)
  from a' have "swept cr algorithms (key, a) (key, a')"
    by (auto simp: swept_def split: if_splits)
  with Cons.IH [OF r] e as' show ?case by simp
qed

lemma swept_truthy:
  assumes "algorithms \<noteq> []" and "swept cr algorithms before after"
  shows "truthy (integrity (snd after))"
proof (cases "truthy (integrity (snd before))")
  case True
  with assms(2) show ?thesis by (simp add: swept_def)
next
  case False
  with assms(2) obtain dg where
    "computeIntegrity cr algorithms (content (snd before)) = Inr dg"
    and "integrity (snd after) = Some dg"
    by (auto simp: swept_def)
  with computeIntegrity_nonempty [OF assms(1)] show ?thesis by simp
qed

lemma diamond_sweep:
  "optimizeAssetsPlugin toy_crypto [JStr ''sha256''] diamond_heap (Suc (Suc (Suc (Suc depth))))
     [0, 1, 2, 3, 4] diamond_assets = Inr diamond_final"
  unfolding optimizeAssetsPlugin_def diamond_run
  by (simp add: diamond_resolved_def diamond_final_def toy_sha256)

text \<open>
  Claim C8. With the algorithm list of a constructed plugin, when the handler
  completes every asset of the map carries an integrity value, and every asset
  that the resolution pass left without one has received the digest of its
  content as it stood, nothing else about it changed.
\<close>

theorem every_asset_has_integrity:
  assumes "SubresourceIntegrityPlugin arg = Inr algorithms"
    and "optimizeAssetsPlugin cr algorithms h depth compilation_chunks as = Inr st"
  shows "(\<forall>entry \<in> set (st_assets st). truthy (integrity (snd entry)))
       \<and> (\<exists>resolved. resolveRoots cr algorithms h depth compilation_chunks as = Inr resolved
             \<and> list_all2 (swept cr algorithms) (st_assets resolved) (st_assets st))"
proof -
  from assms(1) have ne: "algorithms \<noteq> []" by (rule constructor_nonempty)
  from assms(2) obtain resolved as' where
    r: "resolveRoots cr algorithms h depth compilation_chunks as = Inr resolved"
    and f: "forEachAsset cr algorithms (st_assets resolved) = Inr as'"
    and st: "st = resolved\<lparr>st_assets := as'\<rparr>"
    by (auto simp: optimizeAssetsPlugin_def split: sum.splits)
  from forEachAsset_swept [OF f] st
  have sw: "list_all2 (swept cr algorithms) (st_assets resolved) (st_assets st)" by simp
  have "\<forall>entry \<in> set (st_assets st). truthy (integrity (snd entry))"
  proof
    fix entry assume "entry \<in> set (st_assets st)"
    then obtain i where i: "i < length (st_assets st)" and n: "st_assets st ! i = entry"
      by (auto simp: in_set_conv_nth)
    from sw i have "swept cr algorithms (st_assets resolved ! i) (st_assets st ! i)"
      by (simp add: list_all2_conv_all_nth)
    with n swept_truthy [OF ne] show "truthy (integrity (snd entry))" by blast
  qed
  with r sw show ?thesis by blast
qed

theorem every_asset_has_integrity_witness:
  "SubresourceIntegrityPlugin (JStr ''sha256'') = Inr [JStr ''sha256'']
   \<and> optimizeAssetsPlugin toy_crypto [JStr ''sha256''] diamond_heap (Suc (Suc (Suc (Suc 0))))
        [0, 1, 2, 3, 4] diamond_assets = Inr diamond_final
   \<and> list_all (\<lambda>entry. truthy (integrity (snd entry))) (st_assets diamond_final)
   \<and> obj_get (st_assets diamond_final) ''static.txt''
       = Some \<lparr>content = ''hello'', integrity = Some ''sha256-h(hello)''\<rparr>"
proof -
  have c: "SubresourceIntegrityPlugin (JStr ''sha256'') = Inr [JStr ''sha256'']" by simp
  have o: "optimizeAssetsPlugin toy_crypto [JStr ''sha256''] diamond_heap (Suc (Suc (Suc (Suc 0))))
        [0, 1, 2, 3, 4] diamond_assets = Inr diamond_final"
    by (rule diamond_sweep)
  have s: "obj_get (st_assets diamond_final) ''static.txt''
       = Some \<lparr>content = ''hello'', integrity = Some ''sha256-h(hello)''\<rparr>"
    by (simp add: diamond_final_def obj_get_def)
  from every_asset_has_integrity [OF c o]
  have "list_all (\<lambda>entry. truthy (integrity (snd entry))) (st_assets diamond_final)"
    by (simp add: list_all_iff)
  with c o s show ?thesis by blast
qed

section \<open>When the handler returns\<close>

text \<open>
  The resolution pass guards its recursion with the visited set, so it ends on
  every finite graph, cycles included: with algorithms that Node knows, an asset
  for the first file of every chunk below an entry, and more frames of call
  stack than there are such chunks, the handler returns a state.
\<close>

lemma map_throwing_known:
  "list_all (known_algorithm cr) algorithms \<Longrightarrow>
     \<exists>fragments. map_throwing (mapAlgo cr source) algorithms = Inr fragments"
proof (induction algorithms)
  case Nil
  then show ?case by simp
next
  case (Cons a algorithms)
  then obtain algo where "a = JStr algo" "supported cr algo" by (cases a) auto
  with Cons show ?case by auto
qed

lemma computeIntegrity_known:
  "list_all (known_algorithm cr) algorithms \<Longrightarrow>
     \<exists>dg. computeIntegrity cr algorithms source = Inr dg"
  using map_throwing_known [of cr algorithms source] by (auto simp: computeIntegrity_def)

lemma obj_set_keys: "fst ` set (obj_set obj k v) = insert k (fst ` set obj)"
proof (induction obj)
  case Nil
  show ?case by simp
next
  case (Cons e obj)
  obtain k' v' where e: "e = (k', v')" by (cases e)
  show ?case
  proof (cases "k' = k")
    case True
    with e show ?thesis by simp
  next
    case False
    with e Cons.IH show ?thesis by (simp add: insert_commute)
  qed
qed

lemma obj_get_keys: "k \<in> fst ` set obj \<Longrightarrow> \<exists>v. obj_get obj k = Some v"
  by (cases "map_of obj k") (simp_all add: obj_get_def map_of_eq_None_iff)

lemma storeNewAsset_keys:
  "storeNewAsset cr algorithms chunk chunkFile newSource st = Inr st' \<Longrightarrow>
     fst ` set (st_assets st) \<subseteq> fst ` set (st_assets st')"
proof -
  assume "storeNewAsset cr algorithms chunk chunkFile newSource st = Inr st'"
  then obtain a where "st_assets st' = obj_set (st_assets st) chunkFile a"
    by (cases "computeIntegrity cr algorithms newSource") (auto simp: storeNewAsset_def)
  then have "fst ` set (st_assets st') = insert chunkFile (fst ` set (st_assets st))"
    by (simp add: obj_set_keys)
  then show ?thesis by blast
qed

lemma processChunkFile_keys:
  "processChunkFile cr algorithms chunk depChunkIds st = Inr st' \<Longrightarrow>
     fst ` set (st_assets st) \<subseteq> fst ` set (st_assets st')"
  unfolding processChunkFile_def Let_def
  by (cases "files chunk"; cases "obj_get (st_assets st) (hd (files chunk))")
     (auto dest: storeNewAsset_keys)

lemma processChunkRecursive_keys:
  shows "processChunkRecursive cr algorithms h depth c st = Inr (ids, st') \<Longrightarrow>
           fst ` set (st_assets st) \<subseteq> fst ` set (st_assets st')"
    and "mapChunk cr algorithms h depth cs acc st = Inr (ids, st') \<Longrightarrow>
           fst ` set (st_assets st) \<subseteq> fst ` set (st_assets st')"
proof (induction cr algorithms h depth c st and cr algorithms h depth cs acc st
       arbitrary: ids st' and ids st' rule: processChunkRecursive_mapChunk.induct)
  case (1 cr algorithms h c st)
  then show ?case by simp
next
  case (2 cr algorithms h depth c st)
  show ?case
  proof (cases "visited_truthy (visitedByChunkId st) (id_key (chunk_id (h c)))")
    case True
    with "2.prems" show ?thesis by simp
  next
    case False
    with "2.prems" obtain deps st2 where
      m: "mapChunk cr algorithms h depth (chunks (h c)) []
            (st\<lparr>visitedByChunkId := visitedByChunkId st @ [id_key (chunk_id (h c))]\<rparr>)
          = Inr (deps, st2)"
      and f: "processChunkFile cr algorithms (h c) deps st2 = Inr st'"
      by (auto split: sum.splits prod.splits)
    from "2.IH" [OF False m] processChunkFile_keys [OF f] show ?thesis by auto
  qed
next
  case (3 cr algorithms h depth depChunkIds st)
  then show ?case by simp
next
  case (4 cr algorithms h depth depChunk rest depChunkIds st)
  from "4.prems" obtain ids1 st1 where
    p: "processChunkRecursive cr algorithms h depth depChunk st = Inr (ids1, st1)"
    and m: "mapChunk cr algorithms h depth rest (depChunkIds @ ids1) st1 = Inr (ids, st')"
    by (auto split: sum.splits prod.splits)
  from "4.IH"(1) [OF p] "4.IH"(2) [OF p refl m] show ?case by blast
qed

lemma files_known_mono:
  "files_known h R st \<Longrightarrow> fst ` set (st_assets st) \<subseteq> fst ` set (st_assets st') \<Longrightarrow>
     files_known h R st'"
  unfolding files_known_def by blast

lemma unvisited_mono:
  assumes "finite R" and "grows st st'"
  shows "card (unvisited h R st') \<le> card (unvisited h R st)"
proof (rule card_mono)
  from assms(1) show "finite (unvisited h R st)" by (simp add: unvisited_def)
  from grows_visited [OF assms(2)] show "unvisited h R st' \<subseteq> unvisited h R st"
    by (auto simp: unvisited_def)
qed

lemma processChunkFile_returns:
  assumes "list_all (known_algorithm cr) algorithms" and "files_known h R st" and "c \<in> R"
  shows "\<exists>st'. processChunkFile cr algorithms (h c) deps st = Inr st'"
proof (cases "files (h c)")
  case Nil
  then show ?thesis by (simp add: processChunkFile_def)
next
  case (Cons f others)
  with assms(2,3) have "f \<in> fst ` set (st_assets st)" by (auto simp: files_known_def)
  from obj_get_keys [OF this] obtain a where a: "obj_get (st_assets st) f = Some a" by blast
  let ?new = "rs_source (forEachDepChunkId (content a) (hashByChunkId st) deps
                          (ReplaceSource (content a)))"
  from computeIntegrity_known [OF assms(1)] obtain dg where
    "computeIntegrity cr algorithms ?new = Inr dg" by blast
  with Cons a show ?thesis by (simp add: processChunkFile_def storeNewAsset_def Let_def)
qed

lemma processChunkRecursive_returns:
  assumes known: "list_all (known_algorithm cr) algorithms"
    and closed: "\<forall>x \<in> R. chunk_key h x \<notin> set object_prototype_names
                     \<longrightarrow> set (chunks (h x)) \<subseteq> R"
    and fin: "finite R"
  shows "c \<in> R \<Longrightarrow> files_known h R st \<Longrightarrow> card (unvisited h R st) < depth \<Longrightarrow>
           \<exists>ids st'. processChunkRecursive cr algorithms h depth c st = Inr (ids, st')"
    and "set cs \<subseteq> R \<Longrightarrow> files_known h R st \<Longrightarrow> card (unvisited h R st) < depth \<Longrightarrow>
           \<exists>ids st'. mapChunk cr algorithms h depth cs acc st = Inr (ids, st')"
  using known closed fin
proof (induction cr algorithms h depth c st and cr algorithms h depth cs acc st
       rule: processChunkRecursive_mapChunk.induct)
  case (1 cr algorithms h c st)
  then show ?case by simp
next
  case (2 cr algorithms h depth c st)
  let ?key = "id_key (chunk_id (h c))"
  show ?case
  proof (cases "visited_truthy (visitedByChunkId st) ?key")
    case True
    then show ?thesis by simp
  next
    case False
    let ?st1 = "st\<lparr>visitedByChunkId := visitedByChunkId st @ [?key]\<rparr>"
    from False have "chunk_key h c \<notin> set object_prototype_names"
      by (simp add: visited_truthy_def chunk_key_def)
    with "2.prems"(1,5) have sub: "set (chunks (h c)) \<subseteq> R" by blast
    from "2.prems"(2) have fk1: "files_known h R ?st1" by (simp add: files_known_def)
    from "2.prems"(1) False have mem: "?key \<in> unvisited h R st"
      by (auto simp: unvisited_def chunk_key_def visited_truthy_def)
    have u1: "unvisited h R ?st1 = unvisited h R st - {?key}"
      by (auto simp: unvisited_def)
    from "2.prems"(6) have "finite (unvisited h R st)" by (simp add: unvisited_def)
    with mem u1 have "card (unvisited h R ?st1) = card (unvisited h R st) - 1"
      by simp
    with mem "2.prems"(3) \<open>finite (unvisited h R st)\<close>
    have less: "card (unvisited h R ?st1) < depth"
      by (metis Suc_less_eq card_Suc_Diff1 u1)
    from "2.IH" [OF False sub fk1 less "2.prems"(4,5,6)] obtain deps st2 where
      m: "mapChunk cr algorithms h depth (chunks (h c)) [] ?st1 = Inr (deps, st2)" by blast
    from files_known_mono [OF fk1 processChunkRecursive_keys(2) [OF m]]
    have "files_known h R st2" .
    from processChunkFile_returns [OF "2.prems"(4) this "2.prems"(1)] obtain st' where
      "processChunkFile cr algorithms (h c) deps st2 = Inr st'" by blast
    with False m show ?thesis by simp
  qed
next
  case (3 cr algorithms h depth depChunkIds st)
  then show ?case by simp
next
  case (4 cr algorithms h depth depChunk rest depChunkIds st)
  from "4.prems"(1) have d: "depChunk \<in> R" and r: "set rest \<subseteq> R" by simp_all
  from "4.IH"(1) [OF d "4.prems"(2,3,4,5,6)] obtain ids1 st1 where
    p: "processChunkRecursive cr algorithms h depth depChunk st = Inr (ids1, st1)" by blast
  from files_known_mono [OF "4.prems"(2) processChunkRecursive_keys(1) [OF p]]
  have fk: "files_known h R st1" .
  from unvisited_mono [OF "4.prems"(6) processChunkRecursive_grows(1) [OF p], of h] "4.prems"(3)
  have less: "card (unvisited h R st1) < depth" by simp
  from "4.IH"(2) [OF p refl r fk less "4.prems"(4,5,6)] p show ?case by simp
qed

lemma forEachCompilationChunk_returns:
  assumes known: "list_all (known_algorithm cr) algorithms"
    and closed: "\<forall>x \<in> R. chunk_key h x \<notin> set object_prototype_names
                     \<longrightarrow> set (chunks (h x)) \<subseteq> R"
    and fin: "finite R"
  shows "\<forall>c \<in> set cs. is_root (h c) \<longrightarrow> c \<in> R \<Longrightarrow> files_known h R st \<Longrightarrow>
           card (unvisited h R st) < depth \<Longrightarrow>
           \<exists>st'. forEachCompilationChunk cr algorithms h depth cs st = Inr st'"
proof (induction cs arbitrary: st)
  case Nil
  then show ?case by simp
next
  case (Cons c cs)
  from Cons.prems(1) have rest: "\<forall>c \<in> set cs. is_root (h c) \<longrightarrow> c \<in> R" by simp
  show ?case
  proof (cases "is_root (h c)")
    case False
    with Cons.IH [OF rest Cons.prems(2,3)] show ?thesis by simp
  next
    case True
    with Cons.prems(1) have "c \<in> R" by simp
    from processChunkRecursive_returns(1) [OF known closed fin this Cons.prems(2,3)]
    obtain ids st1 where
      p: "processChunkRecursive cr algorithms h depth c st = Inr (ids, st1)" by blast
    from files_known_mono [OF Cons.prems(2) processChunkRecursive_keys(1) [OF p]]
    have fk: "files_known h R st1" .
    from unvisited_mono [OF fin processChunkRecursive_grows(1) [OF p], of h] Cons.prems(3)
    have "card (unvisited h R st1) < depth" by simp
    from Cons.IH [OF rest fk this] True p show ?thesis by simp
  qed
qed

lemma forEachAsset_returns:
  "list_all (known_algorithm cr) algorithms \<Longrightarrow> \<exists>as'. forEachAsset cr algorithms as = Inr as'"
proof (induction as)
  case Nil
  then show ?case by simp
next
  case (Cons entry as)
  obtain key a where e: "entry = (key, a)" by (cases entry)
  from Cons obtain rest' where "forEachAsset cr algorithms as = Inr rest'" by blast
  moreover from computeIntegrity_known [OF Cons.prems] obtain dg where
    "computeIntegrity cr algorithms (content a) = Inr dg" by blast
  ultimately show ?case using e by simp
qed

lemma optimizeAssetsPlugin_returns:
  assumes "list_all (known_algorithm cr) algorithms"
    and "finite (reached h compilation_chunks)"
    and "files_known h (reached h compilation_chunks) (initial_state as)"
    and "card (reached h compilation_chunks) < depth"
  shows "\<exists>st. optimizeAssetsPlugin cr algorithms h depth compilation_chunks as = Inr st"
proof -
  let ?R = "reached h compilation_chunks"
  have "unvisited h ?R (initial_state as) = chunk_key h ` ?R"
    by (simp add: unvisited_def initial_state_def)
  with assms(2) have "card (unvisited h ?R (initial_state as)) \<le> card ?R"
    by (simp add: card_image_le)
  with assms(4) have "card (unvisited h ?R (initial_state as)) < depth" by simp
  from forEachCompilationChunk_returns [OF assms(1) reached_closed assms(2) reached_roots
         assms(3) this]
  obtain st1 where "resolveRoots cr algorithms h depth compilation_chunks as = Inr st1"
    by (auto simp: resolveRoots_def)
  moreover from forEachAsset_returns [OF assms(1)] obtain as' where
    "forEachAsset cr algorithms (st_assets st1) = Inr as'" by blast
  ultimately show ?thesis by (simp add: optimizeAssetsPlugin_def)
qed

section \<open>Markup tags\<close>

lemma not_alnum_question: "\<not> is_alnum CHR ''?''"
  by (simp add: is_alnum_def)

lemma replace_query_strips:
  "q \<noteq> [] \<Longrightarrow> list_all is_alnum q \<Longrightarrow> replace_query (base @ CHR ''?'' # q) = base"
  by (induction base) (simp_all add: not_alnum_question)

lemma replace_query_cases:
  "replace_query r = r \<or>
   (\<exists>base q. r = base @ CHR ''?'' # q \<and> q \<noteq> [] \<and> list_all is_alnum q)"
proof (induction r)
  case Nil
  show ?case by simp
next
  case (Cons c cs)
  show ?case
  proof (cases "c = CHR ''?'' \<and> cs \<noteq> [] \<and> list_all is_alnum cs")
    case True
    then have "c # cs = [] @ CHR ''?'' # cs \<and> cs \<noteq> [] \<and> list_all is_alnum cs" by simp
    then show ?thesis by blast
  next
    case False
    from Cons.IH show ?thesis
    proof
      assume "replace_query cs = cs"
      with False show ?thesis by auto
    next
      assume "\<exists>base q. cs = base @ CHR ''?'' # q \<and> q \<noteq> [] \<and> list_all is_alnum q"
      then obtain base q where "cs = base @ CHR ''?'' # q" "q \<noteq> []" "list_all is_alnum q"
        by blast
      then have "c # cs = (c # base) @ CHR ''?'' # q \<and> q \<noteq> [] \<and> list_all is_alnum q"
        by simp
      then show ?thesis by blast
    qed
  qed
qed

lemma filterTag_getTagSrc:
  assumes "filterTag t"
  shows "\<exists>r. r \<noteq> [] \<and> href_or_src t = Some r \<and> getTagSrc t = Some (replace_query r)
             \<and> replace_query r \<noteq> []"
proof (cases "href_or_src t")
  case None
  with assms show ?thesis by (simp add: filterTag_def getTagSrc_def)
next
  case (Some r)
  with assms show ?thesis
    by (cases "r = []") (simp_all add: filterTag_def getTagSrc_def)
qed

lemma flat_key: "asset_key flat_path flat_options ''app.js'' = ''app.js''"
  by (simp add: asset_key_def flat_path_def flat_options_def)

lemma flat_key_query: "asset_key flat_path flat_options ''app.js?v=123'' = ''app.js?v=123''"
  by (simp add: asset_key_def flat_path_def flat_options_def)

lemma getTagSrc_v123: "getTagSrc (script_tag ''app.js?v=123'') = Some ''app.js?v=123''"
  by (simp add: getTagSrc_def href_or_src_def script_tag_def obj_get_def is_alnum_def)

text \<open>
  Claim C3, as amended. For a script or link tag with a reference, the query is
  cut off only when it is a question mark followed by one or more letters or
  digits up to the end of the reference; any other reference is kept whole.
  When the key resolved from that result names an asset with a non-empty
  integrity value, the tag gains the value as \<open>integrity\<close> and
  \<open>crossorigin\<close> set to \<open>anonymous\<close>, and no warning is recorded.
\<close>

theorem tag_resolution:
  assumes "filterTag t" and "href_or_src t = Some r"
  shows "(\<forall>base q. r = base @ CHR ''?'' # q \<and> q \<noteq> [] \<and> list_all is_alnum q
            \<longrightarrow> getTagSrc t = Some base)
       \<and> ((\<nexists>base q. r = base @ CHR ''?'' # q \<and> q \<noteq> [] \<and> list_all is_alnum q)
            \<longrightarrow> getTagSrc t = Some r)
       \<and> (\<forall>ref a c. getTagSrc t = Some ref
              \<and> obj_get as (asset_key np opts ref) = Some a \<and> integrity a = Some c \<and> c \<noteq> []
            \<longrightarrow> (\<exists>t'. processTag np opts as t warnings = Inr (t', warnings)
                   \<and> tagName t' = tagName t
                   \<and> obj_get (attributes t') ''integrity'' = Some c
                   \<and> obj_get (attributes t') ''crossorigin'' = Some ''anonymous''))"
proof (intro conjI allI impI)
  from filterTag_getTagSrc [OF assms(1)] assms(2)
  have src: "getTagSrc t = Some (replace_query r)" by auto
  {
    fix base q
    assume "r = base @ CHR ''?'' # q \<and> q \<noteq> [] \<and> list_all is_alnum q"
    with src show "getTagSrc t = Some base" by (simp add: replace_query_strips)
  }
  {
    assume "\<nexists>base q. r = base @ CHR ''?'' # q \<and> q \<noteq> [] \<and> list_all is_alnum q"
    with replace_query_cases [of r] have "replace_query r = r" by blast
    with src show "getTagSrc t = Some r" by simp
  }
  {
    fix ref a c
    assume h: "getTagSrc t = Some ref \<and> obj_get as (asset_key np opts ref) = Some a
               \<and> integrity a = Some c \<and> c \<noteq> []"
    then show "\<exists>t'. processTag np opts as t warnings = Inr (t', warnings)
                   \<and> tagName t' = tagName t
                   \<and> obj_get (attributes t') ''integrity'' = Some c
                   \<and> obj_get (attributes t') ''crossorigin'' = Some ''anonymous''"
      by (simp add: processTag_def getIntegrityChecksumForAsset_def obj_get_obj_set)
  }
qed

theorem tag_resolution_witness:
  "filterTag (script_tag ''app.js?abc123'')
   \<and> href_or_src (script_tag ''app.js?abc123'') = Some ''app.js?abc123''
   \<and> getTagSrc (script_tag ''app.js?abc123'') = Some ''app.js''
   \<and> (\<exists>t'. processTag flat_path flat_options
               [(''app.js'', \<lparr>content = ''x'', integrity = Some ''sha256-AAAA''\<rparr>)]
               (script_tag ''app.js?abc123'') [] = Inr (t', [])
          \<and> tagName t' = ''script''
          \<and> obj_get (attributes t') ''integrity'' = Some ''sha256-AAAA''
          \<and> obj_get (attributes t') ''crossorigin'' = Some ''anonymous'')"
proof -
  let ?t = "script_tag ''app.js?abc123''"
  let ?as = "[(''app.js'', \<lparr>content = ''x'', integrity = Some ''sha256-AAAA''\<rparr>)]"
  have raw: "href_or_src ?t = Some ''app.js?abc123''"
    by (simp add: href_or_src_def script_tag_def obj_get_def)
  have src: "getTagSrc ?t = Some ''app.js''"
    by (simp add: getTagSrc_def raw is_alnum_def)
  have f: "filterTag ?t"
    by (simp add: filterTag_def src) (simp add: script_tag_def)
  have key: "obj_get ?as (asset_key flat_path flat_options ''app.js'')
               = Some \<lparr>content = ''x'', integrity = Some ''sha256-AAAA''\<rparr>"
    by (simp add: flat_key obj_get_def)
  have nm: "tagName ?t = ''script''" by (simp add: script_tag_def)
  from tag_resolution [OF f raw, of ?as flat_path flat_options "[]"] src key nm
  have "\<exists>t'. processTag flat_path flat_options ?as ?t [] = Inr (t', [])
          \<and> tagName t' = ''script''
          \<and> obj_get (attributes t') ''integrity'' = Some ''sha256-AAAA''
          \<and> obj_get (attributes t') ''crossorigin'' = Some ''anonymous''"
    by simp
  with f raw src show ?thesis by blast
qed

text \<open>
  The claim as it was stated fails for the reference \<open>app.js?v=123\<close>: the
  equals sign is neither a letter nor a digit, the query stays, the key is not
  \<open>app.js\<close>, and the tag is left as it was with a warning.
\<close>

theorem query_not_stripped_counterexample:
  "filterTag (script_tag ''app.js?v=123'')
   \<and> getTagSrc (script_tag ''app.js?v=123'') = Some ''app.js?v=123''
   \<and> getTagSrc (script_tag ''app.js?v=123'') \<noteq> Some ''app.js''
   \<and> processTag flat_path flat_options
        [(''app.js'', \<lparr>content = ''x'', integrity = Some ''sha256-AAAA''\<rparr>)]
        (script_tag ''app.js?v=123'') []
      = Inr (script_tag ''app.js?v=123'', [unprotected_warning ''app.js?v=123''])"
  by (simp add: getTagSrc_v123 filterTag_def processTag_def flat_key_query
        getIntegrityChecksumForAsset_def obj_get_def)
    (simp add: script_tag_def Let_def)

end
